theory Spec2Isabelle
  imports Main "HOL-Library.AList" "HOL-Library.Word"
begin

section \<open>Strings and small helpers\<close>

text \<open>
  A JavaScript string is a sequence of UTF-16 code units, and the operations that the
  code uses (\<open>length\<close>, \<open>split\<close>, \<open>trim\<close>, \<open>startsWith\<close>, \<open>slice\<close>, concatenation and
  \<open>===\<close>) work on code units.  \<open>js\<close> gives the code units of a literal written in
  ASCII.
\<close>

type_synonym jsstring = "16 word list"

definition js :: "string \<Rightarrow> jsstring" where
  "js s = map of_char s"

text \<open>\<open>s.startsWith(p)\<close>.\<close>

definition startsWith :: "jsstring \<Rightarrow> jsstring \<Rightarrow> bool" where
  "startsWith s p = (take (length p) s = p)"

text \<open>\<open>s.split(c)\<close> for a one-character separator: the result is never empty.\<close>

fun split :: "16 word \<Rightarrow> jsstring \<Rightarrow> jsstring list" where
  "split c [] = [[]]"
| "split c (x # xs) =
     (if x = c then [] # split c xs
      else (case split c xs of
              [] \<Rightarrow> [[x]]
            | w # ws \<Rightarrow> (x # w) # ws))"

definition COMMA :: "16 word" where
  "COMMA = 0x2C"

text \<open>
  The code units that \<open>String.prototype.trim\<close> removes: the white space of ECMAScript
  (tab U+0009, vertical tab U+000B, form feed U+000C, the byte order mark U+FEFF and the
  space separators U+0020, U+00A0, U+1680, U+2000 to U+200A, U+202F, U+205F, U+3000) and
  its line terminators (U+000A, U+000D, U+2028, U+2029).  Each is one code unit.
\<close>

definition whiteSpaceAndLineTerminators :: "16 word list" where
  "whiteSpaceAndLineTerminators =
     [0x0009, 0x000B, 0x000C, 0xFEFF,
      0x0020, 0x00A0, 0x1680,
      0x2000, 0x2001, 0x2002, 0x2003, 0x2004, 0x2005, 0x2006, 0x2007, 0x2008, 0x2009, 0x200A,
      0x202F, 0x205F, 0x3000,
      0x000A, 0x000D, 0x2028, 0x2029]"

definition isWhiteSpace :: "16 word \<Rightarrow> bool" where
  "isWhiteSpace c = (c \<in> set whiteSpaceAndLineTerminators)"

text \<open>\<open>s.trim()\<close>.\<close>

definition trim :: "jsstring \<Rightarrow> jsstring" where
  "trim s = rev (dropWhile isWhiteSpace (rev (dropWhile isWhiteSpace s)))"

text \<open>
  A JavaScript \<open>Set\<close> of strings keeps insertion order and ignores a second \<open>add\<close> of
  the same element; spreading it (\<open>[...set]\<close>) gives the elements in that order.
\<close>

definition set_add :: "'a \<Rightarrow> 'a list \<Rightarrow> 'a list" where
  "set_add x xs = (if x \<in> set xs then xs else xs @ [x])"

section \<open>Data model\<close>

text \<open>
  An error object: its optional \<open>code\<close> property and its message.  Errors raised by the
  collaborators that are not part of the engine are values of the same type.
\<close>

datatype error = Error (err_code: "jsstring option") (err_message: jsstring)

text \<open>
  A JavaScript object used as a dictionary from strings to strings is an association
  list in insertion order; \<open>obj[k]\<close> is \<^term>\<open>map_of\<close>, \<open>obj[k] = v\<close> is
  \<^term>\<open>AList.update\<close> and \<open>Object.keys(obj)\<close> is \<^term>\<open>map fst\<close>.
\<close>

type_synonym dict = "(jsstring \<times> jsstring) list"

abbreviation TYPE_ENV :: jsstring where "TYPE_ENV \<equiv> js ''env''"
abbreviation TYPE_ENV_FILE :: jsstring where "TYPE_ENV_FILE \<equiv> js ''envFile''"
abbreviation TYPE_ENV_VAULT_FILE :: jsstring where "TYPE_ENV_VAULT_FILE \<equiv> js ''envVaultFile''"
abbreviation ENCODING :: jsstring where "ENCODING \<equiv> js ''utf8''"

text \<open>A source descriptor \<open>{ type, value }\<close>; the type tag is a string, as in the code.\<close>

record env_src =
  env_type :: jsstring
  env_value :: jsstring

definition DEFAULT_ENVS :: "env_src list" where
  "DEFAULT_ENVS = [\<lparr>env_type = TYPE_ENV_FILE, env_value = js ''.env''\<rparr>]"

definition DEFAULT_ENV_VAULTS :: "env_src list" where
  "DEFAULT_ENV_VAULTS = [\<lparr>env_type = TYPE_ENV_VAULT_FILE, env_value = js ''.env.vault''\<rparr>]"

text \<open>
  One row of \<open>processedEnvs\<close>.  A property that the code never assigns on some path is
  \<open>None\<close> (\<open>undefined\<close> in JavaScript).
\<close>

record row =
  row_type :: jsstring
  row_string :: "jsstring option"
  row_filepath :: "jsstring option"
  row_parsed :: "dict option"
  row_warnings :: "error list option"
  row_injected :: "dict option"
  row_preExisted :: "dict option"
  row_error :: "error option"

text \<open>The fields of an instance of the class \<open>Run\<close>.\<close>

record Run =
  dotenvPrivateKeyNames :: "jsstring list"
  envs :: "env_src list"
  overload :: bool
  DOTENV_KEY :: jsstring
  processEnv :: dict
  processedEnvs :: "row list"
  readableFilepaths :: "jsstring list"
  readableStrings :: "jsstring list"
  uniqueInjectedKeys :: "jsstring list"

text \<open>The object that \<open>run()\<close> returns.\<close>

record report =
  rep_processedEnvs :: "row list"
  rep_readableStrings :: "jsstring list"
  rep_readableFilepaths :: "jsstring list"
  rep_uniqueInjectedKeys :: "jsstring list"

text \<open>
  The collaborators that the engine only calls (the file system, the parser and expander,
  the decryptor and the key look-ups) are parameters of the model, and so is the
  built-in \<open>String.prototype.toUpperCase\<close>, whose case mapping covers all of Unicode.
  Each one that can throw returns \<^typ>\<open>error + 'a\<close>, \<open>Inl\<close> being the exception.
  \<open>parseDecryptEvalExpand\<close> takes the source text as an option, \<open>None\<close> being
  \<open>undefined\<close>, and a private key that may be \<open>null\<close>.
\<close>

record prims =
  toUpperCase :: "jsstring \<Rightarrow> jsstring"
  path_resolve :: "jsstring \<Rightarrow> jsstring"
  existsSync :: "jsstring \<Rightarrow> bool"
  readFileSync :: "jsstring \<Rightarrow> jsstring \<Rightarrow> error + jsstring"
  detectEncoding :: "jsstring \<Rightarrow> error + jsstring"
  dotenv_parse :: "jsstring \<Rightarrow> dict"
  parseDecryptEvalExpand ::
    "jsstring option \<Rightarrow> jsstring option \<Rightarrow> dict \<Rightarrow> error + (dict \<times> error list)"
  decrypt :: "jsstring \<Rightarrow> jsstring \<Rightarrow> error + jsstring"
  parseEnvironmentFromDotenvKey :: "jsstring \<Rightarrow> error + jsstring"
  guessPrivateKeyFilename :: "jsstring \<Rightarrow> jsstring"
  guessPrivateKeyName :: "jsstring \<Rightarrow> error + jsstring"
  proKeypair :: "jsstring \<Rightarrow> jsstring \<Rightarrow> error + jsstring option"
  cliKeypair :: "jsstring \<Rightarrow> jsstring \<Rightarrow> error + jsstring"
  localKeypair :: "jsstring \<Rightarrow> jsstring \<Rightarrow> error + jsstring option"

section \<open>Source plan builder\<close>

text \<open>
  The loop of \<open>_determineEnvs\<close> that sets \<open>fileAlreadySpecified\<close>, one entry at a time.
\<close>

fun fileAlreadySpecified_loop :: "jsstring \<Rightarrow> env_src list \<Rightarrow> bool \<Rightarrow> bool" where
  "fileAlreadySpecified_loop key [] flag = flag"
| "fileAlreadySpecified_loop key (env # rest) flag =
     (let flag1 = (if length key > 0 \<and> env_type env = TYPE_ENV_VAULT_FILE then True else flag);
          flag2 = (if length key \<le> 0 \<and> env_type env = TYPE_ENV_FILE then True else flag1)
      in fileAlreadySpecified_loop key rest flag2)"

text \<open>\<open>_determineEnvsFromDotenvPrivateKey\<close>: one file source per private key name.\<close>

fun determineEnvsFromDotenvPrivateKey :: "prims \<Rightarrow> jsstring list \<Rightarrow> env_src list" where
  "determineEnvsFromDotenvPrivateKey P [] = []"
| "determineEnvsFromDotenvPrivateKey P (privateKeyName # rest) =
     \<lparr>env_type = TYPE_ENV_FILE, env_value = guessPrivateKeyFilename P privateKeyName\<rparr>
       # determineEnvsFromDotenvPrivateKey P rest"

text \<open>
  \<open>_determineEnvs(envs, DOTENV_KEY)\<close>, with \<open>this.dotenvPrivateKeyNames\<close> as the second
  argument.  A \<open>null\<close> or omitted \<open>envs\<close> takes the same branch as the empty list.
\<close>

definition determineEnvs ::
    "prims \<Rightarrow> jsstring list \<Rightarrow> env_src list \<Rightarrow> jsstring \<Rightarrow> env_src list" where
  "determineEnvs P names envs0 key =
     (if length envs0 \<le> 0 then
        (if length names > 0 then determineEnvsFromDotenvPrivateKey P names
         else if length key > 0 then DEFAULT_ENV_VAULTS
         else DEFAULT_ENVS)
      else
        (if fileAlreadySpecified_loop key envs0 False then envs0
         else if length key > 0 then DEFAULT_ENV_VAULTS @ envs0
         else DEFAULT_ENVS @ envs0))"

text \<open>
  The constructor of \<open>Run\<close>.  An omitted argument is its default: \<open>[]\<close> for \<open>envs\<close>,
  \<open>false\<close> for \<open>overload\<close>, the empty string for \<open>DOTENV_KEY\<close> and \<open>process.env\<close> for
  \<open>processEnv\<close>.
\<close>

definition new_Run :: "prims \<Rightarrow> env_src list \<Rightarrow> bool \<Rightarrow> jsstring \<Rightarrow> dict \<Rightarrow> Run" where
  "new_Run P envs0 overload0 key processEnv0 =
     (let names = filter (\<lambda>k. startsWith k (js ''DOTENV_PRIVATE_KEY'')) (map fst processEnv0)
      in \<lparr>dotenvPrivateKeyNames = names,
          envs = determineEnvs P names envs0 key,
          overload = overload0,
          DOTENV_KEY = key,
          processEnv = processEnv0,
          processedEnvs = [],
          readableFilepaths = [],
          readableStrings = [],
          uniqueInjectedKeys = []\<rparr>)"

section \<open>Injector\<close>

text \<open>
  Modelled from the spec: the helper \<open>inject\<close> (\<open>helpers/inject\<close>), which the engine
  calls through \<open>_inject\<close> and whose code is missing.  Following the contract
  \<open>inject(targetNamespace, resolvedMapping, overwrite, ambientNamespace)\<close>: for each key
  of the resolved mapping, if the key is absent from the ambient namespace, or present
  but \<open>overwrite\<close> is set, the key is set on the target namespace and recorded under
  \<open>injected\<close>; otherwise the target namespace is left untouched and the existing value
  is recorded under \<open>preExisted\<close>.  It has no error case.  The result is the updated
  target namespace with the two records.  The keys of the resolved mapping, a
  JavaScript object, are distinct, so it makes no difference to the outcome whether the
  ambient namespace is read before the loop or, when it is the object being written,
  during it.
\<close>

fun inject_loop ::
    "dict \<Rightarrow> dict \<Rightarrow> bool \<Rightarrow> dict \<Rightarrow> dict \<Rightarrow> dict \<Rightarrow> dict \<times> dict \<times> dict" where
  "inject_loop target [] overwrite ambient injected preExisted =
     (target, injected, preExisted)"
| "inject_loop target ((key, v) # rest) overwrite ambient injected preExisted =
     (case map_of ambient key of
        None \<Rightarrow>
          inject_loop (AList.update key v target) rest overwrite ambient
            (AList.update key v injected) preExisted
      | Some existing \<Rightarrow>
          (if overwrite then
             inject_loop (AList.update key v target) rest overwrite ambient
               (AList.update key v injected) preExisted
           else
             inject_loop target rest overwrite ambient
               injected (AList.update key existing preExisted)))"

definition inject :: "dict \<Rightarrow> dict \<Rightarrow> bool \<Rightarrow> dict \<Rightarrow> dict \<times> dict \<times> dict" where
  "inject target parsed overwrite ambient =
     inject_loop target parsed overwrite ambient [] []"

section \<open>Resolution engine\<close>

definition new_row :: "jsstring \<Rightarrow> jsstring option \<Rightarrow> jsstring option \<Rightarrow> row" where
  "new_row t str fp =
     \<lparr>row_type = t, row_string = str, row_filepath = fp, row_parsed = None,
      row_warnings = None, row_injected = None, row_preExisted = None, row_error = None\<rparr>"

definition push_row :: "row \<Rightarrow> Run \<Rightarrow> Run" where
  "push_row r s = s\<lparr>processedEnvs := processedEnvs s @ [r]\<rparr>"

text \<open>\<open>for (const key of Object.keys(injected)) this.uniqueInjectedKeys.add(key)\<close>.\<close>

fun add_keys :: "jsstring list \<Rightarrow> jsstring list \<Rightarrow> jsstring list" where
  "add_keys [] acc = acc"
| "add_keys (key # rest) acc = add_keys rest (set_add key acc)"

text \<open>
  Modelled from the spec: the \<open>processEnv\<close> component of the result of
  \<open>parseDecryptEvalExpand\<close> (\<open>helpers/parseDecryptEvalExpand\<close>, whose code is missing).
  A run has one target namespace, shared by all its sources and changed by the injector
  only, and expansion reads the namespace without changing it: the component is the
  namespace that was passed in, \<open>this.processEnv\<close>.
\<close>

definition returned_processEnv :: "dict \<Rightarrow> dict" where
  "returned_processEnv processEnv0 = processEnv0"

text \<open>
  The statements that the three handlers share once \<open>parseDecryptEvalExpand\<close> has
  returned: the row takes \<open>parsed\<close> and \<open>warnings\<close>, the mapping is injected by
  \<open>this._inject(processEnv, parsed, this.overload, this.processEnv)\<close>, the row takes
  \<open>injected\<close> and \<open>preExisted\<close>, the injected keys join \<open>uniqueInjectedKeys\<close>, and the
  row is pushed.
\<close>

definition applyParsed :: "dict \<Rightarrow> error list \<Rightarrow> row \<Rightarrow> Run \<Rightarrow> Run" where
  "applyParsed parsed warnings r s =
     (case inject (returned_processEnv (processEnv s)) parsed (overload s) (processEnv s) of
        (processEnv', injected, preExisted) \<Rightarrow>
          push_row
            (r\<lparr>row_parsed := Some parsed, row_warnings := Some warnings,
               row_injected := Some injected, row_preExisted := Some preExisted\<rparr>)
            (s\<lparr>processEnv := processEnv',
               uniqueInjectedKeys := add_keys (map fst injected) (uniqueInjectedKeys s)\<rparr>))"

text \<open>\<open>_injectEnv\<close>: every exception of the body is caught and stored on the row.\<close>

definition injectEnv :: "prims \<Rightarrow> jsstring \<Rightarrow> Run \<Rightarrow> Run" where
  "injectEnv P env s =
     (let r = new_row TYPE_ENV (Some env) None
      in case parseDecryptEvalExpand P (Some env) None (processEnv s) of
           Inl e \<Rightarrow> push_row (r\<lparr>row_error := Some e\<rparr>) s
         | Inr (parsed, warnings) \<Rightarrow>
             applyParsed parsed warnings r
               (s\<lparr>readableStrings := set_add env (readableStrings s)\<rparr>))"

text \<open>
  \<open>_determinePrivateKey\<close>: the extension module, then the command-line tool (its
  output trimmed), then the local key pair; only the last one's exception escapes.
\<close>

definition determinePrivateKey :: "prims \<Rightarrow> jsstring \<Rightarrow> error + jsstring option" where
  "determinePrivateKey P envFilepath =
     (case guessPrivateKeyName P envFilepath of
        Inl e \<Rightarrow> Inl e
      | Inr privateKeyName \<Rightarrow>
          (case proKeypair P envFilepath privateKeyName of
             Inr privateKey \<Rightarrow> Inr privateKey
           | Inl _ \<Rightarrow>
               (case cliKeypair P privateKeyName envFilepath of
                  Inr out \<Rightarrow> Inr (Some (trim out))
                | Inl _ \<Rightarrow> localKeypair P envFilepath privateKeyName)))"

text \<open>The \<open>catch\<close> of \<open>_injectEnvFile\<close>: \<open>ENOENT\<close> becomes \<open>MISSING_ENV_FILE\<close>.\<close>

definition envFile_error :: "jsstring \<Rightarrow> jsstring \<Rightarrow> error \<Rightarrow> error" where
  "envFile_error envFilepath filepath e =
     (if err_code e = Some (js ''ENOENT'')
      then Error (Some (js ''MISSING_ENV_FILE''))
             (js ''missing '' @ envFilepath @ js '' file ('' @ filepath @ js '')'')
      else e)"

definition injectEnvFile :: "prims \<Rightarrow> jsstring \<Rightarrow> Run \<Rightarrow> Run" where
  "injectEnvFile P envFilepath s =
     (let r = new_row TYPE_ENV_FILE None (Some envFilepath);
          filepath = path_resolve P envFilepath
      in case detectEncoding P filepath of
           Inl e \<Rightarrow> push_row (r\<lparr>row_error := Some (envFile_error envFilepath filepath e)\<rparr>) s
         | Inr encoding \<Rightarrow>
             (case readFileSync P filepath encoding of
                Inl e \<Rightarrow>
                  push_row (r\<lparr>row_error := Some (envFile_error envFilepath filepath e)\<rparr>) s
              | Inr src \<Rightarrow>
                  (let s1 = s\<lparr>readableFilepaths := set_add envFilepath (readableFilepaths s)\<rparr>
                   in case determinePrivateKey P envFilepath of
                        Inl e \<Rightarrow>
                          push_row
                            (r\<lparr>row_error := Some (envFile_error envFilepath filepath e)\<rparr>) s1
                      | Inr privateKey \<Rightarrow>
                          (case parseDecryptEvalExpand P (Some src) privateKey (processEnv s1) of
                             Inl e \<Rightarrow>
                               push_row
                                 (r\<lparr>row_error := Some (envFile_error envFilepath filepath e)\<rparr>)
                                 s1
                           | Inr (parsed, warnings) \<Rightarrow> applyParsed parsed warnings r s1))))"

text \<open>\<open>_dotenvKeys\<close> and \<open>_parsedVault\<close>.\<close>

definition dotenvKeys :: "Run \<Rightarrow> jsstring list" where
  "dotenvKeys s = split COMMA (DOTENV_KEY s)"

definition parsedVault :: "prims \<Rightarrow> jsstring \<Rightarrow> error + dict" where
  "parsedVault P filepath =
     (case readFileSync P filepath ENCODING of
        Inl e \<Rightarrow> Inl e
      | Inr src \<Rightarrow> Inr (dotenv_parse P src))"

text \<open>
  \<open>_decrypted\<close>: \<open>!ciphertext\<close> holds for a missing entry and for the empty string.
\<close>

definition decrypted :: "prims \<Rightarrow> jsstring \<Rightarrow> dict \<Rightarrow> error + jsstring" where
  "decrypted P dotenvKey vault =
     (case parseEnvironmentFromDotenvKey P dotenvKey of
        Inl e \<Rightarrow> Inl e
      | Inr environment \<Rightarrow>
          (let environmentKey = js ''DOTENV_VAULT_'' @ toUpperCase P environment;
               notFound = Error (Some (js ''NOT_FOUND_DOTENV_ENVIRONMENT''))
                 (js ''NOT_FOUND_DOTENV_ENVIRONMENT: cannot locate environment ''
                    @ environmentKey @ js '' in your .env.vault file'')
           in case map_of vault environmentKey of
                None \<Rightarrow> Inl notFound
              | Some ciphertext \<Rightarrow>
                  (if ciphertext = [] then Inl notFound
                   else decrypt P ciphertext dotenvKey)))"

text \<open>
  The key rotation loop of \<open>_injectEnvVaultFile\<close>, on the keys from index \<open>i\<close> on.
  \<open>rest = []\<close> is the test \<open>i + 1 >= dotenvKeys.length\<close>.  The result \<open>Inr None\<close> is a
  loop that ends with \<open>decrypted\<close> still \<open>undefined\<close>, \<open>Inl\<close> is the rethrown error.
\<close>

fun rotate :: "prims \<Rightarrow> jsstring list \<Rightarrow> dict \<Rightarrow> error + jsstring option" where
  "rotate P [] vault = Inr None"
| "rotate P (k # rest) vault =
     (case decrypted P (trim k) vault of
        Inr plain \<Rightarrow> Inr (Some plain)
      | Inl e \<Rightarrow> (if rest = [] then Inl e else rotate P rest vault))"

text \<open>
  \<open>_injectEnvVaultFile\<close>.  It can throw: the first component of the result is the
  exception that leaves the method, and the second is the state at that moment.
\<close>

definition injectEnvVaultFile :: "prims \<Rightarrow> jsstring \<Rightarrow> Run \<Rightarrow> error option \<times> Run" where
  "injectEnvVaultFile P envVaultFilepath s =
     (let r = new_row TYPE_ENV_VAULT_FILE None (Some envVaultFilepath);
          filepath = path_resolve P envVaultFilepath;
          s1 = s\<lparr>readableFilepaths := set_add envVaultFilepath (readableFilepaths s)\<rparr>
      in if \<not> existsSync P filepath then
           (Some (Error (Some (js ''MISSING_ENV_VAULT_FILE''))
                    (js ''you set DOTENV_KEY but your .env.vault file is missing: '' @ filepath)),
            s1)
         else if length (DOTENV_KEY s1) < 1 then
           (Some (Error (Some (js ''MISSING_DOTENV_KEY''))
                    (js ''your DOTENV_KEY appears to be blank: '' @ [0x27]
                       @ DOTENV_KEY s1 @ [0x27])),
            s1)
         else
           (case parsedVault P filepath of
              Inl e \<Rightarrow> (Some e, s1)
            | Inr vault \<Rightarrow>
                (case rotate P (dotenvKeys s1) vault of
                   Inl e \<Rightarrow> (Some e, s1)
                 | Inr plain \<Rightarrow>
                     (case parseDecryptEvalExpand P plain None (processEnv s1) of
                        Inl e \<Rightarrow> (None, push_row (r\<lparr>row_error := Some e\<rparr>) s1)
                      | Inr (parsed, warnings) \<Rightarrow>
                          (None, applyParsed parsed warnings r s1)))))"

text \<open>The loop of \<open>run()\<close>: a source of an unknown type is skipped.\<close>

fun run_loop :: "prims \<Rightarrow> env_src list \<Rightarrow> Run \<Rightarrow> error option \<times> Run" where
  "run_loop P [] s = (None, s)"
| "run_loop P (env # rest) s =
     (if env_type env = TYPE_ENV_VAULT_FILE then
        (case injectEnvVaultFile P (env_value env) s of
           (Some e, s') \<Rightarrow> (Some e, s')
         | (None, s') \<Rightarrow> run_loop P rest s')
      else if env_type env = TYPE_ENV_FILE then
        run_loop P rest (injectEnvFile P (env_value env) s)
      else if env_type env = TYPE_ENV then
        run_loop P rest (injectEnv P (env_value env) s)
      else run_loop P rest s)"

definition make_report :: "Run \<Rightarrow> report" where
  "make_report s =
     \<lparr>rep_processedEnvs = processedEnvs s,
      rep_readableStrings = readableStrings s,
      rep_readableFilepaths = readableFilepaths s,
      rep_uniqueInjectedKeys = uniqueInjectedKeys s\<rparr>"

text \<open>
  \<open>run()\<close>: \<open>Inl\<close> is the exception that leaves it, \<open>Inr\<close> the returned report; the
  second component is the instance afterwards (its fields are mutated in place).
\<close>

definition run :: "prims \<Rightarrow> Run \<Rightarrow> (error + report) \<times> Run" where
  "run P s =
     (case run_loop P (envs s) s of
        (Some e, s') \<Rightarrow> (Inl e, s')
      | (None, s') \<Rightarrow> (Inr (make_report s'), s'))"

section \<open>The helper \<open>truncate\<close>\<close>

text \<open>
  \<open>truncate\<close> appends the ellipsis U+2026, which is one code unit, to a slice of the
  string; \<open>String.prototype.slice\<close> counts code units.
\<close>

definition ELLIPSIS :: "16 word" where
  "ELLIPSIS = 0x2026"

text \<open>
  \<open>str.slice(0, end)\<close> for an integral \<open>end\<close>: a negative \<open>end\<close> counts from the
  end of the string, and both bounds are clamped to the string.
\<close>

definition slice0 :: "'a list \<Rightarrow> int \<Rightarrow> 'a list" where
  "slice0 str endpos =
     (let len = int (length str);
          to = (if endpos < 0 then max (len + endpos) 0 else min endpos len)
      in take (nat to) str)"

text \<open>
  \<open>src/lib/helpers/truncate.js\<close>.  The optional parameter \<open>showChar = 7\<close> is an
  \<^typ>\<open>int option\<close>: \<open>None\<close> is the omitted argument.
\<close>

definition truncate :: "jsstring \<Rightarrow> int option \<Rightarrow> jsstring" where
  "truncate str showChar_opt =
     (let showChar = (case showChar_opt of None \<Rightarrow> 7 | Some n \<Rightarrow> n);
          visiblePart = slice0 str showChar
      in visiblePart @ [ELLIPSIS])"

section \<open>Notions used in the statements\<close>

text \<open>The keys of the \<open>injected\<close> mapping of a row (none when the row has no such field).\<close>

definition injected_keys :: "row \<Rightarrow> jsstring set" where
  "injected_keys r = (case row_injected r of None \<Rightarrow> {} | Some d \<Rightarrow> fst ` set d)"

text \<open>
  A file source is read successfully when \<open>detectEncoding\<close> and \<open>readFileSync\<close> both
  return; a vault source when the file exists and \<open>readFileSync\<close> returns.
\<close>

definition file_read_ok :: "prims \<Rightarrow> jsstring \<Rightarrow> bool" where
  "file_read_ok P envFilepath =
     (case detectEncoding P (path_resolve P envFilepath) of
        Inl _ \<Rightarrow> False
      | Inr encoding \<Rightarrow>
          (case readFileSync P (path_resolve P envFilepath) encoding of
             Inl _ \<Rightarrow> False
           | Inr _ \<Rightarrow> True))"

definition vault_read_ok :: "prims \<Rightarrow> jsstring \<Rightarrow> bool" where
  "vault_read_ok P envVaultFilepath =
     (existsSync P (path_resolve P envVaultFilepath) \<and>
      (case readFileSync P (path_resolve P envVaultFilepath) ENCODING of
         Inl _ \<Rightarrow> False
       | Inr _ \<Rightarrow> True))"

definition successfully_read :: "prims \<Rightarrow> env_src \<Rightarrow> bool" where
  "successfully_read P env =
     ((env_type env = TYPE_ENV_FILE \<and> file_read_ok P (env_value env))
      \<or> (env_type env = TYPE_ENV_VAULT_FILE \<and> vault_read_ok P (env_value env)))"

text \<open>The sources of a plan that \<open>run()\<close> dispatches to a handler.\<close>

definition handled :: "env_src \<Rightarrow> bool" where
  "handled env =
     (env_type env = TYPE_ENV_VAULT_FILE \<or> env_type env = TYPE_ENV_FILE
      \<or> env_type env = TYPE_ENV)"

text \<open>
  \<open>parts.join(c)\<close>, by which the result of \<open>split\<close> is characterised: the parts are
  free of the separator and joining them gives the string back.
\<close>

fun join :: "16 word \<Rightarrow> jsstring list \<Rightarrow> jsstring" where
  "join c [] = []"
| "join c [x] = x"
| "join c (x # y # rest) = x @ c # join c (y # rest)"

text \<open>
  Trying keys in the given order, each key used as it is: the first key that
  \<open>_decrypted\<close> accepts gives the result, and when none does the error is that of the
  last key.  The rotation loop of the code is compared with it.
\<close>

fun try_in_order :: "prims \<Rightarrow> jsstring list \<Rightarrow> dict \<Rightarrow> error + jsstring option" where
  "try_in_order P [] vault = Inr None"
| "try_in_order P (k # rest) vault =
     (case decrypted P k vault of
        Inr plain \<Rightarrow> Inr (Some plain)
      | Inl e \<Rightarrow> (if rest = [] then Inl e else try_in_order P rest vault))"

text \<open>Two invariants of the loop of \<open>run()\<close>.\<close>

definition unique_inv :: "Run \<Rightarrow> bool" where
  "unique_inv s =
     (set (uniqueInjectedKeys s) = (\<Union>r \<in> set (processedEnvs s). injected_keys r)
      \<and> distinct (uniqueInjectedKeys s))"

definition preExisting_kept :: "jsstring \<Rightarrow> jsstring \<Rightarrow> Run \<Rightarrow> bool" where
  "preExisting_kept k v s =
     (map_of (processEnv s) k = Some v \<and>
      (\<forall>r \<in> set (processedEnvs s). \<forall>p. row_parsed r = Some p \<longrightarrow> k \<in> fst ` set p \<longrightarrow>
         (\<exists>pe. row_preExisted r = Some pe \<and> map_of pe k = Some v)))"

section \<open>A concrete world\<close>

text \<open>
  A small instance of the collaborators, on which the statements below are evaluated:
  a directory \<open>/app\<close> with the files \<open>.env\<close> and \<open>.env.vault\<close>, a parser of one
  \<open>KEY=VALUE\<close> line, a decryptor that accepts the key \<open>good\<close> only, and an upper-casing
  of the letters \<open>a\<close> to \<open>z\<close>.
\<close>

definition demo_parse :: "jsstring \<Rightarrow> error + (dict \<times> error list)" where
  "demo_parse src =
     (if 0x3D \<in> set src
      then Inr ([(takeWhile (\<lambda>c. c \<noteq> 0x3D) src,
                  tl (dropWhile (\<lambda>c. c \<noteq> 0x3D) src))], [])
      else Inl (Error None (js ''parse failure'')))"

definition demo_upper :: "jsstring \<Rightarrow> jsstring" where
  "demo_upper s = map (\<lambda>c. if c \<in> set (js ''abcdefghijklmnopqrstuvwxyz'') then c - 0x20 else c) s"

definition demo :: prims where
  "demo =
     \<lparr>toUpperCase = demo_upper,
      path_resolve = (\<lambda>p. (js ''/app/'') @ p),
      existsSync = (\<lambda>p. p = js ''/app/.env'' \<or> p = js ''/app/.env.vault''),
      readFileSync = (\<lambda>p enc.
        if p = js ''/app/.env'' then Inr (js ''HELLO=world'')
        else if p = js ''/app/.env.vault'' then Inr (js ''DOTENV_VAULT_PROD=s3cr3t'')
        else Inl (Error (Some (js ''ENOENT'')) (js ''no such file or directory''))),
      detectEncoding = (\<lambda>p.
        if p = js ''/app/.env'' \<or> p = js ''/app/.env.vault'' then Inr (js ''utf8'')
        else Inl (Error (Some (js ''ENOENT'')) (js ''no such file or directory''))),
      dotenv_parse = (\<lambda>src. case demo_parse src of Inl _ \<Rightarrow> [] | Inr (d, _) \<Rightarrow> d),
      parseDecryptEvalExpand = (\<lambda>src privateKey env.
        case src of None \<Rightarrow> Inl (Error None (js ''no source'')) | Some text \<Rightarrow> demo_parse text),
      decrypt = (\<lambda>ciphertext k.
        if ciphertext = js ''s3cr3t'' \<and> k = js ''good'' then Inr (js ''SECRET=42'')
        else Inl (Error (Some (js ''DECRYPTION_FAILED'')) (js ''cannot decrypt with '' @ k))),
      parseEnvironmentFromDotenvKey = (\<lambda>k. Inr (js ''prod'')),
      guessPrivateKeyFilename = (\<lambda>name. (js ''.env'')),
      guessPrivateKeyName = (\<lambda>f. Inr (js ''DOTENV_PRIVATE_KEY'')),
      proKeypair = (\<lambda>f name. Inl (Error (Some (js ''MODULE_NOT_FOUND'')) (js ''no extension''))),
      cliKeypair = (\<lambda>name f. Inl (Error None (js ''command not found''))),
      localKeypair = (\<lambda>f name. Inr None)\<rparr>"

abbreviation inline_src :: "jsstring \<Rightarrow> env_src" where
  "inline_src v \<equiv> \<lparr>env_type = TYPE_ENV, env_value = v\<rparr>"

abbreviation file_src :: "jsstring \<Rightarrow> env_src" where
  "file_src v \<equiv> \<lparr>env_type = TYPE_ENV_FILE, env_value = v\<rparr>"

abbreviation vault_src :: "jsstring \<Rightarrow> env_src" where
  "vault_src v \<equiv> \<lparr>env_type = TYPE_ENV_VAULT_FILE, env_value = v\<rparr>"

section \<open>Auxiliary lemmas\<close>

subsection \<open>Literals\<close>

lemma of_char_word_eq_iff: "(of_char c :: 16 word) = of_char d \<longleftrightarrow> c = d"
proof -
  have lt: "(of_char x :: nat) < 2 ^ 16" for x
  proof -
    have "(of_char x :: nat) < 256" by (rule nat_of_char_less_256)
    also have "(256::nat) < 2 ^ 16" by simp
    finally show ?thesis .
  qed
  have tb: "take_bit 16 (of_char x :: nat) = of_char x" for x
    by (rule take_bit_nat_eq_self) (rule lt)
  have "(of_char c :: 16 word) = of_char d
          \<longleftrightarrow> (word_of_nat (of_char c) :: 16 word) = word_of_nat (of_char d)"
    by (simp only: of_nat_of_char)
  also have "\<dots> \<longleftrightarrow> (of_char c :: nat) = of_char d"
    by (simp add: word_of_nat_eq_iff tb del: of_char_eq_iff)
  also have "\<dots> \<longleftrightarrow> c = d" by simp
  finally show ?thesis .
qed

lemma js_eq_iff [simp]: "js a = js b \<longleftrightarrow> a = b"
proof -
  have "inj (of_char :: char \<Rightarrow> 16 word)"
    by (rule injI) (simp add: of_char_word_eq_iff)
  then show ?thesis by (simp add: js_def inj_map_eq_map)
qed

lemma js_eq_Nil [simp]: "js a = [] \<longleftrightarrow> a = []" "[] = js a \<longleftrightarrow> a = []"
  by (auto simp: js_def)

lemmas demo_simps =
  js_def COMMA_def whiteSpaceAndLineTerminators_def demo_upper_def
  demo_def demo_parse_def new_Run_def determineEnvs_def run_def
  injectEnv_def injectEnvFile_def injectEnvVaultFile_def applyParsed_def inject_def
  returned_processEnv_def
  push_row_def new_row_def set_add_def make_report_def startsWith_def
  DEFAULT_ENVS_def DEFAULT_ENV_VAULTS_def determinePrivateKey_def envFile_error_def
  dotenvKeys_def parsedVault_def decrypted_def trim_def isWhiteSpace_def handled_def
  Let_def

subsection \<open>Sets as lists\<close>

lemma set_set_add [simp]: "set (set_add x xs) = insert x (set xs)"
  by (auto simp: set_add_def)

lemma distinct_set_add [simp]: "distinct (set_add x xs) = distinct xs"
  by (auto simp: set_add_def)

lemma set_add_keys [simp]: "set (add_keys ks acc) = set ks \<union> set acc"
  by (induction ks arbitrary: acc) auto

lemma distinct_add_keys [simp]: "distinct (add_keys ks acc) = distinct acc"
  by (induction ks arbitrary: acc) auto

subsection \<open>What the handlers leave unchanged\<close>

lemma applyParsed_rows:
  "\<exists>env' injd pre. inject (processEnv s) parsed (overload s) (processEnv s) = (env', injd, pre)
     \<and> applyParsed parsed warnings r s =
         s\<lparr>processEnv := env',
           uniqueInjectedKeys := add_keys (map fst injd) (uniqueInjectedKeys s),
           processedEnvs := processedEnvs s @
             [r\<lparr>row_parsed := Some parsed, row_warnings := Some warnings,
                row_injected := Some injd, row_preExisted := Some pre\<rparr>]\<rparr>"
  by (cases "inject (processEnv s) parsed (overload s) (processEnv s)")
     (simp add: applyParsed_def returned_processEnv_def push_row_def)

lemma push_row_fields [simp]:
  "overload (push_row r s) = overload s"
  "DOTENV_KEY (push_row r s) = DOTENV_KEY s"
  "envs (push_row r s) = envs s"
  "processEnv (push_row r s) = processEnv s"
  "readableFilepaths (push_row r s) = readableFilepaths s"
  "readableStrings (push_row r s) = readableStrings s"
  "uniqueInjectedKeys (push_row r s) = uniqueInjectedKeys s"
  "processedEnvs (push_row r s) = processedEnvs s @ [r]"
  by (simp_all add: push_row_def)

lemma applyParsed_fields [simp]:
  "overload (applyParsed parsed warnings r s) = overload s"
  "DOTENV_KEY (applyParsed parsed warnings r s) = DOTENV_KEY s"
  "envs (applyParsed parsed warnings r s) = envs s"
  "readableFilepaths (applyParsed parsed warnings r s) = readableFilepaths s"
  "readableStrings (applyParsed parsed warnings r s) = readableStrings s"
  "length (processedEnvs (applyParsed parsed warnings r s)) = Suc (length (processedEnvs s))"
  by (simp_all add: applyParsed_def split: prod.splits)

lemma injectEnv_fields [simp]:
  "overload (injectEnv P env s) = overload s"
  "DOTENV_KEY (injectEnv P env s) = DOTENV_KEY s"
  "readableFilepaths (injectEnv P env s) = readableFilepaths s"
  "length (processedEnvs (injectEnv P env s)) = Suc (length (processedEnvs s))"
  by (simp_all add: injectEnv_def Let_def split: sum.splits prod.splits)

lemma injectEnvFile_fields [simp]:
  "overload (injectEnvFile P f s) = overload s"
  "DOTENV_KEY (injectEnvFile P f s) = DOTENV_KEY s"
  "length (processedEnvs (injectEnvFile P f s)) = Suc (length (processedEnvs s))"
  by (simp_all add: injectEnvFile_def Let_def split: sum.splits prod.splits)

lemma injectEnvVaultFile_fields [simp]:
  "overload (snd (injectEnvVaultFile P f s)) = overload s"
  "DOTENV_KEY (snd (injectEnvVaultFile P f s)) = DOTENV_KEY s"
  by (simp_all add: injectEnvVaultFile_def Let_def split: sum.splits prod.splits)

lemma run_loop_append:
  "run_loop P (pre @ post) s =
     (case run_loop P pre s of
        (Some e, s') \<Rightarrow> (Some e, s')
      | (None, s') \<Rightarrow> run_loop P post s')"
  by (induction pre arbitrary: s) (auto split: prod.splits option.splits)

lemma run_loop_DOTENV_KEY: "DOTENV_KEY (snd (run_loop P es s)) = DOTENV_KEY s"
proof (induction es arbitrary: s)
  case Nil
  show ?case by simp
next
  case (Cons env rest)
  show ?case
  proof (cases "injectEnvVaultFile P (env_value env) s")
    case (Pair err s1)
    then have "DOTENV_KEY s1 = DOTENV_KEY s"
      using injectEnvVaultFile_fields(2) [of P "env_value env" s] by simp
    with Pair Cons show ?thesis by (auto split: option.splits)
  qed
qed

lemma run_completed:
  assumes "fst (run P s) = Inr rep"
  shows "fst (run_loop P (envs s) s) = None"
    and "rep = make_report (snd (run_loop P (envs s) s))"
  using assms by (auto simp: run_def split: prod.splits option.splits)

lemma snd_run: "snd (run P s) = snd (run_loop P (envs s) s)"
  by (simp add: run_def split: prod.splits option.splits)

subsection \<open>The union of the injected keys\<close>

lemma unique_inv_readable [simp]:
  "unique_inv (s\<lparr>readableStrings := x\<rparr>) = unique_inv s"
  "unique_inv (s\<lparr>readableFilepaths := y\<rparr>) = unique_inv s"
  by (simp_all add: unique_inv_def)

lemma unique_inv_applyParsed:
  assumes "unique_inv s" "row_injected r = None"
  shows "unique_inv (applyParsed parsed warnings r s)"
proof -
  obtain env' injd pre where
    "applyParsed parsed warnings r s =
         s\<lparr>processEnv := env',
           uniqueInjectedKeys := add_keys (map fst injd) (uniqueInjectedKeys s),
           processedEnvs := processedEnvs s @
             [r\<lparr>row_parsed := Some parsed, row_warnings := Some warnings,
                row_injected := Some injd, row_preExisted := Some pre\<rparr>]\<rparr>"
    using applyParsed_rows by blast
  with assms show ?thesis
    by (auto simp: unique_inv_def injected_keys_def)
qed

lemma unique_inv_push_row:
  "unique_inv s \<Longrightarrow> row_injected r = None \<Longrightarrow> unique_inv (push_row r s)"
  by (auto simp: unique_inv_def push_row_def injected_keys_def)

lemma unique_inv_injectEnv: "unique_inv s \<Longrightarrow> unique_inv (injectEnv P env s)"
  by (simp add: injectEnv_def Let_def new_row_def unique_inv_push_row unique_inv_applyParsed
           split: sum.splits prod.splits)

lemma unique_inv_injectEnvFile: "unique_inv s \<Longrightarrow> unique_inv (injectEnvFile P f s)"
  by (simp add: injectEnvFile_def Let_def new_row_def unique_inv_push_row unique_inv_applyParsed
           split: sum.splits prod.splits)

lemma unique_inv_injectEnvVaultFile:
  "unique_inv s \<Longrightarrow> unique_inv (snd (injectEnvVaultFile P f s))"
  by (simp add: injectEnvVaultFile_def Let_def new_row_def unique_inv_push_row
                unique_inv_applyParsed
           split: sum.splits prod.splits)

lemma unique_inv_run_loop:
  "unique_inv s \<Longrightarrow> unique_inv (snd (run_loop P es s))"
proof (induction es arbitrary: s)
  case Nil
  then show ?case by simp
next
  case (Cons env rest)
  show ?case
  proof (cases "injectEnvVaultFile P (env_value env) s")
    case (Pair err s1)
    with Cons.prems have "unique_inv s1"
      using unique_inv_injectEnvVaultFile [of s P "env_value env"] by simp
    with Pair Cons show ?thesis
      by (auto simp: unique_inv_injectEnv unique_inv_injectEnvFile split: option.splits)
  qed
qed

lemma unique_inv_new_Run: "unique_inv (new_Run P envs0 overload0 key processEnv0)"
  by (simp add: unique_inv_def new_Run_def Let_def)

subsection \<open>The readable file paths\<close>

lemma readable_injectEnvFile:
  "set (readableFilepaths (injectEnvFile P f s)) =
     set (readableFilepaths s) \<union> (if file_read_ok P f then {f} else {})"
  by (simp add: injectEnvFile_def file_read_ok_def Let_def split: sum.splits prod.splits)

lemma readable_injectEnvVaultFile:
  assumes "injectEnvVaultFile P f s = (None, s')"
  shows "set (readableFilepaths s') = insert f (set (readableFilepaths s)) \<and> vault_read_ok P f"
  using assms
  by (auto simp: injectEnvVaultFile_def vault_read_ok_def parsedVault_def Let_def
           split: sum.splits prod.splits if_splits)

lemma readable_run_loop:
  "run_loop P es s = (None, s') \<Longrightarrow>
   set (readableFilepaths s') =
     set (readableFilepaths s) \<union> env_value ` {e \<in> set es. successfully_read P e}"
proof (induction es arbitrary: s)
  case Nil
  then show ?case by simp
next
  case (Cons env rest)
  consider (isVault) "env_type env = TYPE_ENV_VAULT_FILE"
    | (isFile) "env_type env = TYPE_ENV_FILE"
    | (isInline) "env_type env = TYPE_ENV"
    | (isOther) "env_type env \<noteq> TYPE_ENV_VAULT_FILE" "env_type env \<noteq> TYPE_ENV_FILE"
        "env_type env \<noteq> TYPE_ENV"
    by blast
  then show ?case
  proof cases
    case isVault
    with Cons.prems obtain s1 where
      h: "injectEnvVaultFile P (env_value env) s = (None, s1)" and
      l: "run_loop P rest s1 = (None, s')"
      by (auto split: prod.splits option.splits)
    from readable_injectEnvVaultFile [OF h]
    have r1: "set (readableFilepaths s1) = insert (env_value env) (set (readableFilepaths s))"
      and ok: "vault_read_ok P (env_value env)" by simp_all
    from ok isVault have "successfully_read P env" by (simp add: successfully_read_def)
    with Cons.IH [OF l] r1 show ?thesis by auto
  next
    case isFile
    with Cons.prems have l: "run_loop P rest (injectEnvFile P (env_value env) s) = (None, s')"
      by simp
    from isFile have "successfully_read P env = file_read_ok P (env_value env)"
      by (simp add: successfully_read_def)
    with Cons.IH [OF l] show ?thesis
      by (auto simp: readable_injectEnvFile)
  next
    case isInline
    with Cons.prems have l: "run_loop P rest (injectEnv P (env_value env) s) = (None, s')"
      by simp
    from isInline have "\<not> successfully_read P env" by (simp add: successfully_read_def)
    with Cons.IH [OF l] show ?thesis by auto
  next
    case isOther
    with Cons.prems have l: "run_loop P rest s = (None, s')" by simp
    from isOther have "\<not> successfully_read P env" by (simp add: successfully_read_def)
    with Cons.IH [OF l] show ?thesis by auto
  qed
qed

subsection \<open>The injector under \<open>overload = false\<close>\<close>

lemma inject_loop_target_kept:
  "map_of ambient k = Some v \<Longrightarrow>
   map_of (fst (inject_loop target kvs False ambient injd pre)) k = map_of target k"
proof (induction kvs arbitrary: target injd pre)
  case Nil
  then show ?case by simp
next
  case (Cons kv rest)
  obtain key val where kv: "kv = (key, val)" by (cases kv)
  show ?case
  proof (cases "map_of ambient key")
    case None
    with Cons.prems have "key \<noteq> k" by auto
    with None kv Cons show ?thesis by (simp add: update_conv')
  next
    case (Some existing)
    with kv Cons show ?thesis by simp
  qed
qed

lemma inject_loop_preExisted:
  "map_of ambient k = Some v \<Longrightarrow>
   k \<in> fst ` set kvs \<or> map_of pre k = Some v \<Longrightarrow>
   map_of (snd (snd (inject_loop target kvs False ambient injd pre))) k = Some v"
proof (induction kvs arbitrary: target injd pre)
  case Nil
  then show ?case by simp
next
  case (Cons kv rest)
  obtain key val where kv: "kv = (key, val)" by (cases kv)
  show ?case
  proof (cases "map_of ambient key")
    case None
    with Cons.prems have "key \<noteq> k" by auto
    with Cons.prems kv have "k \<in> fst ` set rest \<or> map_of pre k = Some v" by auto
    with None kv Cons show ?thesis by simp
  next
    case (Some existing)
    have "k \<in> fst ` set rest \<or> map_of (AList.update key existing pre) k = Some v"
    proof (cases "key = k")
      case True
      with Some Cons.prems show ?thesis by (simp add: update_conv')
    next
      case False
      with Cons.prems kv show ?thesis by (auto simp: update_conv')
    qed
    with Some kv Cons show ?thesis by simp
  qed
qed

lemma preExisting_kept_readable [simp]:
  "preExisting_kept k v (s\<lparr>readableStrings := x\<rparr>) = preExisting_kept k v s"
  "preExisting_kept k v (s\<lparr>readableFilepaths := y\<rparr>) = preExisting_kept k v s"
  by (simp_all add: preExisting_kept_def)

lemma preExisting_kept_push_row:
  "preExisting_kept k v s \<Longrightarrow> row_parsed r = None \<Longrightarrow> preExisting_kept k v (push_row r s)"
  by (auto simp: preExisting_kept_def)

lemma preExisting_kept_applyParsed:
  assumes "preExisting_kept k v s" "\<not> overload s"
  shows "preExisting_kept k v (applyParsed parsed warnings r s)"
proof -
  obtain env' injd pre where
    i: "inject (processEnv s) parsed (overload s) (processEnv s) = (env', injd, pre)" and
    a: "applyParsed parsed warnings r s =
         s\<lparr>processEnv := env',
           uniqueInjectedKeys := add_keys (map fst injd) (uniqueInjectedKeys s),
           processedEnvs := processedEnvs s @
             [r\<lparr>row_parsed := Some parsed, row_warnings := Some warnings,
                row_injected := Some injd, row_preExisted := Some pre\<rparr>]\<rparr>"
    using applyParsed_rows by blast
  from assms have amb: "map_of (processEnv s) k = Some v"
    by (simp add: preExisting_kept_def)
  from i assms(2) have
    e: "env' = fst (inject_loop (processEnv s) parsed False (processEnv s) [] [])" and
    p: "pre = snd (snd (inject_loop (processEnv s) parsed False (processEnv s) [] []))"
    by (simp_all add: inject_def)
  from e amb have 1: "map_of env' k = Some v"
    by (simp add: inject_loop_target_kept)
  from p amb have 2: "k \<in> fst ` set parsed \<Longrightarrow> map_of pre k = Some v"
    by (simp add: inject_loop_preExisted)
  from assms(1) 1 2 show ?thesis
    unfolding a by (auto simp: preExisting_kept_def)
qed

lemma preExisting_kept_injectEnv:
  "preExisting_kept k v s \<Longrightarrow> \<not> overload s \<Longrightarrow> preExisting_kept k v (injectEnv P env s)"
  by (simp add: injectEnv_def Let_def new_row_def preExisting_kept_push_row
                preExisting_kept_applyParsed split: sum.splits prod.splits)

lemma preExisting_kept_injectEnvFile:
  "preExisting_kept k v s \<Longrightarrow> \<not> overload s \<Longrightarrow> preExisting_kept k v (injectEnvFile P f s)"
  by (simp add: injectEnvFile_def Let_def new_row_def preExisting_kept_push_row
                preExisting_kept_applyParsed split: sum.splits prod.splits)

lemma preExisting_kept_injectEnvVaultFile:
  "preExisting_kept k v s \<Longrightarrow> \<not> overload s \<Longrightarrow>
   preExisting_kept k v (snd (injectEnvVaultFile P f s))"
  by (simp add: injectEnvVaultFile_def Let_def new_row_def preExisting_kept_push_row
                preExisting_kept_applyParsed split: sum.splits prod.splits)

lemma preExisting_kept_run_loop:
  "preExisting_kept k v s \<Longrightarrow> \<not> overload s \<Longrightarrow>
   preExisting_kept k v (snd (run_loop P es s))"
proof (induction es arbitrary: s)
  case Nil
  then show ?case by simp
next
  case (Cons env rest)
  show ?case
  proof (cases "injectEnvVaultFile P (env_value env) s")
    case (Pair err s1)
    with Cons.prems have "preExisting_kept k v s1" "\<not> overload s1"
      using preExisting_kept_injectEnvVaultFile [of k v s P "env_value env"]
            injectEnvVaultFile_fields(1) [of P "env_value env" s]
      by simp_all
    with Pair Cons show ?thesis
      by (auto simp: preExisting_kept_injectEnv preExisting_kept_injectEnvFile
               split: option.splits)
  qed
qed

subsection \<open>Plans without a vault source\<close>

lemma run_loop_without_vault:
  "\<forall>e \<in> set es. env_type e \<noteq> TYPE_ENV_VAULT_FILE \<Longrightarrow>
   fst (run_loop P es s) = None
   \<and> length (processedEnvs (snd (run_loop P es s))) =
       length (processedEnvs s) + length (filter handled es)"
  by (induction es arbitrary: s) (auto simp: handled_def)

subsection \<open>Splitting, trimming and the rotation of keys\<close>

lemma split_without_separator: "c \<notin> set s \<Longrightarrow> split c s = [s]"
  by (induction s) auto

lemma split_nonempty: "split c s \<noteq> []"
  by (induction s) (auto split: list.splits)

lemma trim_whitespace_only: "\<forall>c \<in> set s. isWhiteSpace c \<Longrightarrow> trim s = []"
proof -
  assume "\<forall>c \<in> set s. isWhiteSpace c"
  then have d: "dropWhile isWhiteSpace s = []" by (induction s) auto
  show ?thesis unfolding trim_def d by simp
qed

lemma comma_not_whiteSpace: "\<not> isWhiteSpace COMMA"
  by (simp add: isWhiteSpace_def whiteSpaceAndLineTerminators_def COMMA_def)

lemma join_split: "join c (split c s) = s"
proof (induction s)
  case Nil
  show ?case by simp
next
  case (Cons x xs)
  obtain w ws where sp: "split c xs = w # ws"
    using split_nonempty [of c xs] by (cases "split c xs") auto
  with Cons show ?case by (cases ws) auto
qed

lemma split_parts_without_separator: "p \<in> set (split c s) \<Longrightarrow> c \<notin> set p"
proof (induction s arbitrary: p)
  case Nil
  then show ?case by simp
next
  case (Cons x xs)
  obtain w ws where sp: "split c xs = w # ws"
    using split_nonempty [of c xs] by (cases "split c xs") auto
  from Cons.IH [of w] sp have w: "c \<notin> set w" by simp
  from Cons.IH sp have ws: "\<And>q. q \<in> set ws \<Longrightarrow> c \<notin> set q" by simp
  from Cons.prems sp w ws show ?case by (auto split: if_splits)
qed

lemma trim_decomposition:
  "\<exists>pre post. k = pre @ trim k @ post
     \<and> (\<forall>c \<in> set pre. isWhiteSpace c) \<and> (\<forall>c \<in> set post. isWhiteSpace c)
     \<and> (trim k \<noteq> [] \<longrightarrow> \<not> isWhiteSpace (hd (trim k)) \<and> \<not> isWhiteSpace (last (trim k)))"
proof -
  let ?pre = "takeWhile isWhiteSpace k"
  let ?d = "dropWhile isWhiteSpace k"
  let ?post = "rev (takeWhile isWhiteSpace (rev ?d))"
  have d: "?d = trim k @ ?post"
  proof -
    have "trim k @ ?post =
            rev (takeWhile isWhiteSpace (rev ?d) @ dropWhile isWhiteSpace (rev ?d))"
      by (simp only: trim_def rev_append)
    also have "\<dots> = rev (rev ?d)" by (simp only: takeWhile_dropWhile_id)
    also have "\<dots> = ?d" by simp
    finally show ?thesis by simp
  qed
  have k: "k = ?pre @ trim k @ ?post"
    using d takeWhile_dropWhile_id [of isWhiteSpace k] by simp
  have pre: "\<forall>c \<in> set ?pre. isWhiteSpace c" by (auto dest: set_takeWhileD)
  have post: "\<forall>c \<in> set ?post. isWhiteSpace c" by (auto dest: set_takeWhileD)
  have ends: "\<not> isWhiteSpace (hd (trim k)) \<and> \<not> isWhiteSpace (last (trim k))"
    if ne: "trim k \<noteq> []"
  proof -
    from ne d have dne: "?d \<noteq> []" by (metis append_is_Nil_conv)
    from ne d have "hd (trim k) = hd ?d" by (metis hd_append2)
    moreover from dne have "\<not> isWhiteSpace (hd ?d)" by (rule hd_dropWhile)
    ultimately have h: "\<not> isWhiteSpace (hd (trim k))" by simp
    from ne have r: "dropWhile isWhiteSpace (rev ?d) \<noteq> []" by (simp add: trim_def)
    then have "\<not> isWhiteSpace (hd (dropWhile isWhiteSpace (rev ?d)))" by (rule hd_dropWhile)
    moreover from r have "last (trim k) = hd (dropWhile isWhiteSpace (rev ?d))"
      by (simp add: trim_def last_rev)
    ultimately have "\<not> isWhiteSpace (last (trim k))" by simp
    with h show ?thesis by simp
  qed
  from k pre post ends show ?thesis by blast
qed

lemma rotate_try_in_order: "rotate P ks vault = try_in_order P (map trim ks) vault"
  by (induction ks) (auto split: sum.splits)

lemma rotate_first_success:
  "\<forall>k' \<in> set failed. isl (decrypted P (trim k') vault) \<Longrightarrow>
   decrypted P (trim k) vault = Inr plain \<Longrightarrow>
   rotate P (failed @ k # later) vault = Inr (Some plain)"
  by (induction failed) (auto split: sum.splits)

lemma rotate_all_fail:
  "ks \<noteq> [] \<Longrightarrow> \<forall>k \<in> set ks. isl (decrypted P (trim k) vault) \<Longrightarrow>
   rotate P ks vault = Inl (projl (decrypted P (trim (last ks)) vault))"
  by (induction ks) (auto split: sum.splits)

subsection \<open>Slicing\<close>

lemma slice0_nonneg: "0 \<le> n \<Longrightarrow> slice0 s n = take (nat n) s"
proof (cases "n \<le> int (length s)")
  case True
  assume "0 \<le> n"
  with True show ?thesis by (simp add: slice0_def Let_def min_def)
next
  case False
  then have "length s \<le> nat n" by linarith
  with False show ?thesis by (simp add: slice0_def Let_def min_def)
qed

lemma take_snoc_eq_iff:
  "(take k s @ [c] = s) = (length s = Suc k \<and> last s = c)"
proof
  assume eq: "take k s @ [c] = s"
  then have "length (take k s @ [c]) = length s" by simp
  then have len: "length s = Suc k" by (simp add: min_def split: if_splits)
  from eq have "last s = c" by (metis last_snoc)
  with len show "length s = Suc k \<and> last s = c" by simp
next
  assume a: "length s = Suc k \<and> last s = c"
  then have ne: "s \<noteq> []" by auto
  from a have "take k s = butlast s" by (simp add: butlast_conv_take)
  with a ne show "take k s @ [c] = s" by (metis append_butlast_last_id)
qed

lemma fileAlreadySpecified_loop_eq:
  "fileAlreadySpecified_loop key es flag =
     (flag \<or> (key \<noteq> [] \<and> (\<exists>e \<in> set es. env_type e = TYPE_ENV_VAULT_FILE))
           \<or> (key = [] \<and> (\<exists>e \<in> set es. env_type e = TYPE_ENV_FILE)))"
  by (induction es arbitrary: flag) (auto simp: Let_def)

section \<open>The claims\<close>

text \<open>
  C1 (as amended).  For a vault source whose file exists and can be read, with a
  non-empty master secret: the comma-separated keys are tried in order, each one
  trimmed, and the first one whose decryption succeeds wins, after which the handler
  returns normally and the run goes on with the next source.  If every key fails, the
  error of the last attempt is thrown out of \<open>run()\<close>: the run stops there, and no row
  is added for the source.
\<close>

theorem rotation_first_success_wins_last_error_thrown:
  assumes "env_type src = TYPE_ENV_VAULT_FILE"
          "existsSync P (path_resolve P (env_value src))" "DOTENV_KEY s \<noteq> []"
          "parsedVault P (path_resolve P (env_value src)) = Inr vault"
  shows "(dotenvKeys s = failed @ k # later
          \<and> (\<forall>k' \<in> set failed. isl (decrypted P (trim k') vault))
          \<and> decrypted P (trim k) vault = Inr plain \<longrightarrow>
            rotate P (dotenvKeys s) vault = Inr (Some plain)
            \<and> fst (injectEnvVaultFile P (env_value src) s) = None
            \<and> run_loop P (src # rest) s =
                run_loop P rest (snd (injectEnvVaultFile P (env_value src) s)))
       \<and> ((\<forall>k' \<in> set (dotenvKeys s). isl (decrypted P (trim k') vault)) \<longrightarrow>
            isl (decrypted P (trim (last (dotenvKeys s))) vault)
            \<and> run_loop P (src # rest) s =
                (Some (projl (decrypted P (trim (last (dotenvKeys s))) vault)),
                 s\<lparr>readableFilepaths := set_add (env_value src) (readableFilepaths s)\<rparr>))"
proof -
  let ?s1 = "s\<lparr>readableFilepaths := set_add (env_value src) (readableFilepaths s)\<rparr>"
  have keys: "dotenvKeys ?s1 = dotenvKeys s" by (simp add: dotenvKeys_def)
  have ne: "dotenvKeys s \<noteq> []" by (simp add: dotenvKeys_def split_nonempty)
  have first: "rotate P (dotenvKeys s) vault = Inr (Some plain)"
    if "dotenvKeys s = failed @ k # later"
       "\<forall>k' \<in> set failed. isl (decrypted P (trim k') vault)"
       "decrypted P (trim k) vault = Inr plain"
    using that by (simp add: rotate_first_success)
  have ok: "fst (injectEnvVaultFile P (env_value src) s) = None"
    if "rotate P (dotenvKeys s) vault = Inr (Some plain)"
    using that assms(2,3,4) keys
    by (simp add: injectEnvVaultFile_def Let_def split: sum.splits prod.splits)
  have cont: "run_loop P (src # rest) s =
                run_loop P rest (snd (injectEnvVaultFile P (env_value src) s))"
    if "fst (injectEnvVaultFile P (env_value src) s) = None"
    using that assms(1) by (cases "injectEnvVaultFile P (env_value src) s") simp
  have fail: "rotate P (dotenvKeys s) vault =
                Inl (projl (decrypted P (trim (last (dotenvKeys s))) vault))"
    if "\<forall>k' \<in> set (dotenvKeys s). isl (decrypted P (trim k') vault)"
    using ne that by (rule rotate_all_fail)
  have abort: "run_loop P (src # rest) s =
                (Some (projl (decrypted P (trim (last (dotenvKeys s))) vault)), ?s1)"
    if "\<forall>k' \<in> set (dotenvKeys s). isl (decrypted P (trim k') vault)"
    using fail [OF that] assms keys
    by (simp add: injectEnvVaultFile_def Let_def)
  have lastfail: "isl (decrypted P (trim (last (dotenvKeys s))) vault)"
    if "\<forall>k' \<in> set (dotenvKeys s). isl (decrypted P (trim k') vault)"
    using that ne by simp
  from first ok cont abort lastfail show ?thesis by blast
qed

theorem rotation_first_success_wins_last_error_thrown_witness:
  "existsSync demo (path_resolve demo (js ''.env.vault''))
   \<and> parsedVault demo (path_resolve demo (js ''.env.vault''))
       = Inr [(js ''DOTENV_VAULT_PROD'', js ''s3cr3t'')]
   \<and> dotenvKeys (new_Run demo [] False (js ''bad , good'') []) = [js ''bad ''] @ (js '' good'') # []
   \<and> isl (decrypted demo (trim (js ''bad '')) [(js ''DOTENV_VAULT_PROD'', js ''s3cr3t'')])
   \<and> decrypted demo (trim (js '' good'')) [(js ''DOTENV_VAULT_PROD'', js ''s3cr3t'')]
       = Inr (js ''SECRET=42'')
   \<and> rotate demo (dotenvKeys (new_Run demo [] False (js ''bad , good'') []))
       [(js ''DOTENV_VAULT_PROD'', js ''s3cr3t'')] = Inr (Some (js ''SECRET=42''))
   \<and> fst (injectEnvVaultFile demo (js ''.env.vault'') (new_Run demo [] False (js ''bad , good'') []))
       = None
   \<and> dotenvKeys (new_Run demo [] False (js ''bad,worse'') []) = [js ''bad'', js ''worse'']
   \<and> isl (decrypted demo (trim (js ''bad'')) [(js ''DOTENV_VAULT_PROD'', js ''s3cr3t'')])
   \<and> isl (decrypted demo (trim (js ''worse'')) [(js ''DOTENV_VAULT_PROD'', js ''s3cr3t'')])
   \<and> fst (run_loop demo [vault_src (js ''.env.vault''), inline_src (js ''A=1'')]
            (new_Run demo [] False (js ''bad,worse'') []))
       = Some (Error (Some (js ''DECRYPTION_FAILED'')) (js ''cannot decrypt with worse''))
   \<and> processedEnvs (snd (run_loop demo [vault_src (js ''.env.vault''), inline_src (js ''A=1'')]
            (new_Run demo [] False (js ''bad,worse'') []))) = []"
  using rotation_first_success_wins_last_error_thrown
          [of "vault_src (js ''.env.vault'')" demo "new_Run demo [] False (js ''bad , good'') []"
              "[(js ''DOTENV_VAULT_PROD'', js ''s3cr3t'')]" "[js ''bad '']" "(js '' good'')" "[]"
              "(js ''SECRET=42'')" "[]"]
        rotation_first_success_wins_last_error_thrown
          [of "vault_src (js ''.env.vault'')" demo "new_Run demo [] False (js ''bad,worse'') []"
              "[(js ''DOTENV_VAULT_PROD'', js ''s3cr3t'')]" "[]" "(js ''bad'')" "[js ''worse'']"
              "(js ''SECRET=42'')" "[inline_src (js ''A=1'')]"]
  by (simp add: demo_simps)

text \<open>
  C1 as stated fails: with the single key \<open>bad\<close>, which does not decrypt the vault, the
  run of the plan \<open>[.env.vault, A=1]\<close> ends with the decryption error and without any
  row, instead of recording the error and going on to the inline source.
\<close>

theorem rotation_failure_not_recorded_counterexample:
  "envs (new_Run demo [inline_src (js ''A=1'')] False (js ''bad'') [])
     = [vault_src (js ''.env.vault''), inline_src (js ''A=1'')]
   \<and> fst (run demo (new_Run demo [inline_src (js ''A=1'')] False (js ''bad'') []))
       = Inl (Error (Some (js ''DECRYPTION_FAILED'')) (js ''cannot decrypt with bad''))
   \<and> processedEnvs (snd (run demo (new_Run demo [inline_src (js ''A=1'')] False (js ''bad'') []))) = []"
  by (simp add: demo_simps)

text \<open>
  C2.  In a run with \<open>overload = false\<close>, a key that the ambient namespace holds before
  the run has the same value in the namespace after the run, whether the run returns or
  throws, and every row whose \<open>parsed\<close> mapping defines the key has the key in
  \<open>preExisted\<close> with that existing value.
\<close>

theorem preExisting_keys_protected:
  assumes "map_of processEnv0 k = Some v"
  shows "map_of (processEnv (snd (run P (new_Run P envs0 False key processEnv0)))) k = Some v
         \<and> (\<forall>r \<in> set (processedEnvs (snd (run P (new_Run P envs0 False key processEnv0)))).
              \<forall>p. row_parsed r = Some p \<longrightarrow> k \<in> fst ` set p \<longrightarrow>
                (\<exists>pe. row_preExisted r = Some pe \<and> map_of pe k = Some v))"
proof -
  let ?s = "new_Run P envs0 False key processEnv0"
  have o: "\<not> overload ?s" by (simp add: new_Run_def Let_def)
  from assms have "preExisting_kept k v ?s"
    by (simp add: preExisting_kept_def new_Run_def Let_def)
  then have "preExisting_kept k v (snd (run_loop P (envs ?s) ?s))"
    using o by (rule preExisting_kept_run_loop)
  then show ?thesis by (simp add: snd_run preExisting_kept_def)
qed

theorem preExisting_keys_protected_witness:
  "map_of [(js ''HELLO'', js ''original'')] (js ''HELLO'') = Some (js ''original'')
   \<and> processEnv (snd (run demo
         (new_Run demo [inline_src (js ''HELLO=two'')] False [] [(js ''HELLO'', js ''original'')])))
       = [(js ''HELLO'', js ''original'')]
   \<and> map row_preExisted (processedEnvs (snd (run demo
         (new_Run demo [inline_src (js ''HELLO=two'')] False [] [(js ''HELLO'', js ''original'')]))))
       = [Some [(js ''HELLO'', js ''original'')], Some [(js ''HELLO'', js ''original'')]]"
  using preExisting_keys_protected
          [of "[(js ''HELLO'', js ''original'')]" "(js ''HELLO'')" "(js ''original'')" demo
              "[inline_src (js ''HELLO=two'')]" "[]"]
  by (simp add: demo_simps)

text \<open>
  C3.  When the loop of \<open>run()\<close> reaches a vault source: if the vault file does not
  exist, \<open>run()\<close> throws an error with the code \<open>MISSING_ENV_VAULT_FILE\<close>; if the file
  exists and the master secret is the empty string, it throws an error with the code
  \<open>MISSING_DOTENV_KEY\<close>.  In both cases no row is added for the source.
\<close>

theorem vault_presence_checks_fatal:
  assumes "envs s = pre @ src # post" "env_type src = TYPE_ENV_VAULT_FILE"
          "fst (run_loop P pre s) = None"
  shows "(\<not> existsSync P (path_resolve P (env_value src)) \<longrightarrow>
            fst (run P s) = Inl (Error (Some (js ''MISSING_ENV_VAULT_FILE''))
              (js ''you set DOTENV_KEY but your .env.vault file is missing: ''
                 @ path_resolve P (env_value src)))
            \<and> processedEnvs (snd (run P s)) = processedEnvs (snd (run_loop P pre s)))
       \<and> (existsSync P (path_resolve P (env_value src)) \<and> DOTENV_KEY s = [] \<longrightarrow>
            fst (run P s) = Inl (Error (Some (js ''MISSING_DOTENV_KEY''))
              (js ''your DOTENV_KEY appears to be blank: '' @ [0x27, 0x27]))
            \<and> processedEnvs (snd (run P s)) = processedEnvs (snd (run_loop P pre s)))"
proof -
  obtain s1 where s1: "run_loop P pre s = (None, s1)"
    using assms(3) by (cases "run_loop P pre s") simp
  have key: "DOTENV_KEY s1 = DOTENV_KEY s"
    using run_loop_DOTENV_KEY [of P pre s] s1 by simp
  have loop: "run_loop P (envs s) s = run_loop P (src # post) s1"
    using assms(1) s1 by (simp add: run_loop_append)
  show ?thesis
    unfolding run_def loop using assms(2) key s1
    by (simp add: injectEnvVaultFile_def Let_def)
qed

theorem vault_presence_checks_fatal_witness:
  "envs (new_Run demo [inline_src (js ''A=1''), vault_src (js ''gone.vault'')] False [] [])
     = [file_src (js ''.env''), inline_src (js ''A=1'')] @ vault_src (js ''gone.vault'') # []
   \<and> fst (run_loop demo [file_src (js ''.env''), inline_src (js ''A=1'')]
            (new_Run demo [inline_src (js ''A=1''), vault_src (js ''gone.vault'')] False [] [])) = None
   \<and> \<not> existsSync demo (path_resolve demo (js ''gone.vault''))
   \<and> fst (run demo (new_Run demo [inline_src (js ''A=1''), vault_src (js ''gone.vault'')] False [] []))
       = Inl (Error (Some (js ''MISSING_ENV_VAULT_FILE''))
           (js ''you set DOTENV_KEY but your .env.vault file is missing: /app/gone.vault''))
   \<and> length (processedEnvs (snd (run demo
         (new_Run demo [inline_src (js ''A=1''), vault_src (js ''gone.vault'')] False [] [])))) = 2
   \<and> envs (new_Run demo [vault_src (js ''.env.vault'')] False [] [])
       = [file_src (js ''.env'')] @ vault_src (js ''.env.vault'') # []
   \<and> existsSync demo (path_resolve demo (js ''.env.vault''))
   \<and> DOTENV_KEY (new_Run demo [vault_src (js ''.env.vault'')] False [] []) = []
   \<and> fst (run demo (new_Run demo [vault_src (js ''.env.vault'')] False [] []))
       = Inl (Error (Some (js ''MISSING_DOTENV_KEY''))
           (js ''your DOTENV_KEY appears to be blank: '' @ [0x27, 0x27]))
   \<and> length (processedEnvs (snd (run demo
         (new_Run demo [vault_src (js ''.env.vault'')] False [] [])))) = 1"
  using vault_presence_checks_fatal
          [of "new_Run demo [inline_src (js ''A=1''), vault_src (js ''gone.vault'')] False [] []"
              "[file_src (js ''.env''), inline_src (js ''A=1'')]" "vault_src (js ''gone.vault'')" "[]" demo]
        vault_presence_checks_fatal
          [of "new_Run demo [vault_src (js ''.env.vault'')] False [] []"
              "[file_src (js ''.env'')]" "vault_src (js ''.env.vault'')" "[]" demo]
  by (simp add: demo_simps)

text \<open>
  C4.  When the caller supplies no sources and no name of the ambient namespace starts
  with \<open>DOTENV_PRIVATE_KEY\<close>, the plan is exactly \<open>[File(".env")]\<close> if the master
  secret is empty and exactly \<open>[VaultFile(".env.vault")]\<close> otherwise.
\<close>

theorem determineEnvs_default:
  "filter (\<lambda>name. startsWith name (js ''DOTENV_PRIVATE_KEY'')) (map fst processEnv0) = [] \<Longrightarrow>
   envs (new_Run P [] overload0 key processEnv0) =
     (if key = [] then [\<lparr>env_type = TYPE_ENV_FILE, env_value = js ''.env''\<rparr>]
      else [\<lparr>env_type = TYPE_ENV_VAULT_FILE, env_value = js ''.env.vault''\<rparr>])"
  by (simp add: new_Run_def determineEnvs_def DEFAULT_ENVS_def DEFAULT_ENV_VAULTS_def)

theorem determineEnvs_default_witness:
  "filter (\<lambda>name. startsWith name (js ''DOTENV_PRIVATE_KEY'')) (map fst [(js ''HOME'', js ''/root'')]) = []
   \<and> envs (new_Run demo [] False [] [(js ''HOME'', js ''/root'')]) = [file_src (js ''.env'')]
   \<and> envs (new_Run demo [] False (js ''good'') [(js ''HOME'', js ''/root'')]) = [vault_src (js ''.env.vault'')]"
  using determineEnvs_default [of "[(js ''HOME'', js ''/root'')]" demo False "[]"]
        determineEnvs_default [of "[(js ''HOME'', js ''/root'')]" demo False "(js ''good'')"]
  by (simp add: startsWith_def js_def)

text \<open>
  C5.  For a non-empty list of caller sources the plan is either that list unchanged
  (when the master secret is non-empty and the list has a vault source, or the master
  secret is empty and the list has a file source), or that list with one default source
  in front: \<open>VaultFile(".env.vault")\<close> if the master secret is non-empty, else
  \<open>File(".env")\<close>.  Nothing is removed, reordered or appended.
\<close>

theorem determineEnvs_keeps_caller_entries:
  "envs0 \<noteq> [] \<Longrightarrow>
   determineEnvs P names envs0 key =
     (if (key \<noteq> [] \<and> (\<exists>e \<in> set envs0. env_type e = TYPE_ENV_VAULT_FILE))
         \<or> (key = [] \<and> (\<exists>e \<in> set envs0. env_type e = TYPE_ENV_FILE))
      then envs0
      else (if key \<noteq> [] then \<lparr>env_type = TYPE_ENV_VAULT_FILE, env_value = js ''.env.vault''\<rparr>
            else \<lparr>env_type = TYPE_ENV_FILE, env_value = js ''.env''\<rparr>) # envs0)"
  by (simp add: determineEnvs_def fileAlreadySpecified_loop_eq DEFAULT_ENVS_def
                DEFAULT_ENV_VAULTS_def)

theorem determineEnvs_keeps_caller_entries_witness:
  "[inline_src (js ''A=1'')] \<noteq> []
   \<and> determineEnvs demo [] [inline_src (js ''A=1'')] [] = [file_src (js ''.env''), inline_src (js ''A=1'')]
   \<and> determineEnvs demo [] [inline_src (js ''A=1''), vault_src (js ''my.vault'')] (js ''good'')
       = [inline_src (js ''A=1''), vault_src (js ''my.vault'')]
   \<and> determineEnvs demo [] [file_src (js ''a.env'')] (js ''good'')
       = [vault_src (js ''.env.vault''), file_src (js ''a.env'')]"
  using determineEnvs_keeps_caller_entries [of "[inline_src (js ''A=1'')]" demo "[]" "[]"]
        determineEnvs_keeps_caller_entries
          [of "[inline_src (js ''A=1''), vault_src (js ''my.vault'')]" demo "[]" "(js ''good'')"]
        determineEnvs_keeps_caller_entries [of "[file_src (js ''a.env'')]" demo "[]" "(js ''good'')"]
  by simp

text \<open>
  C6.  When \<open>run()\<close> returns, \<open>uniqueInjectedKeys\<close> of the report is, as a set, the union
  of the keys of the \<open>injected\<close> mappings of all rows of the report, and it lists every
  key once.
\<close>

theorem uniqueInjectedKeys_is_union:
  assumes "fst (run P (new_Run P envs0 overload0 key processEnv0)) = Inr rep"
  shows "set (rep_uniqueInjectedKeys rep) = (\<Union>r \<in> set (rep_processedEnvs rep). injected_keys r)
         \<and> distinct (rep_uniqueInjectedKeys rep)"
proof -
  let ?s = "new_Run P envs0 overload0 key processEnv0"
  have inv: "unique_inv (snd (run_loop P (envs ?s) ?s))"
    by (rule unique_inv_run_loop) (rule unique_inv_new_Run)
  from assms have "rep = make_report (snd (run_loop P (envs ?s) ?s))"
    by (rule run_completed)
  with inv show ?thesis
    by (simp add: make_report_def unique_inv_def)
qed

theorem uniqueInjectedKeys_is_union_witness:
  "\<not> isl (fst (run demo (new_Run demo [inline_src (js ''SECRET=7'')] False (js ''good'') [])))
   \<and> rep_uniqueInjectedKeys
     (projr (fst (run demo (new_Run demo [inline_src (js ''SECRET=7'')] False (js ''good'') []))))
     = [js ''SECRET'']
   \<and> map row_injected (rep_processedEnvs
       (projr (fst (run demo (new_Run demo [inline_src (js ''SECRET=7'')] False (js ''good'') [])))))
     = [Some [(js ''SECRET'', js ''42'')], Some []]
   \<and> map row_preExisted (rep_processedEnvs
       (projr (fst (run demo (new_Run demo [inline_src (js ''SECRET=7'')] False (js ''good'') [])))))
     = [Some [], Some [(js ''SECRET'', js ''42'')]]"
  using uniqueInjectedKeys_is_union
          [of demo "[inline_src (js ''SECRET=7'')]" False "(js ''good'')" "[]"
              "projr (fst (run demo (new_Run demo [inline_src (js ''SECRET=7'')] False (js ''good'') [])))"]
  by (simp add: demo_simps)

text \<open>
  C7.  An inline or file source never stops the run: the loop goes on with the next
  source after its handler, and a plan without vault sources always runs to its end
  with one row per handled source.  A failure of \<open>parseDecryptEvalExpand\<close> is stored as
  the error of the row of the source.  For a file source, a failure to read the file is
  stored on the row too, and an error with the code \<open>ENOENT\<close> (the file is missing) is
  stored as an error with the code \<open>MISSING_ENV_FILE\<close> whose message carries the path
  as given and as resolved.
\<close>

theorem inline_and_file_failures_recorded:
  "(env_type src = TYPE_ENV \<longrightarrow>
      run_loop P (src # rest) s = run_loop P rest (injectEnv P (env_value src) s)
      \<and> (parseDecryptEvalExpand P (Some (env_value src)) None (processEnv s) = Inl e \<longrightarrow>
           injectEnv P (env_value src) s =
             s\<lparr>processedEnvs := processedEnvs s @
                 [(new_row TYPE_ENV (Some (env_value src)) None)\<lparr>row_error := Some e\<rparr>]\<rparr>))
   \<and> (env_type src = TYPE_ENV_FILE \<longrightarrow>
      run_loop P (src # rest) s = run_loop P rest (injectEnvFile P (env_value src) s)
      \<and> ((detectEncoding P (path_resolve P (env_value src)) = Inl e
           \<or> (detectEncoding P (path_resolve P (env_value src)) = Inr encoding
               \<and> readFileSync P (path_resolve P (env_value src)) encoding = Inl e)) \<longrightarrow>
           injectEnvFile P (env_value src) s =
             s\<lparr>processedEnvs := processedEnvs s @
                 [(new_row TYPE_ENV_FILE None (Some (env_value src)))
                    \<lparr>row_error := Some
                       (if err_code e = Some (js ''ENOENT'')
                        then Error (Some (js ''MISSING_ENV_FILE''))
                               (js ''missing '' @ env_value src @ js '' file (''
                                  @ path_resolve P (env_value src) @ js '')'')
                        else e)\<rparr>]\<rparr>)
      \<and> (detectEncoding P (path_resolve P (env_value src)) = Inr encoding
          \<and> readFileSync P (path_resolve P (env_value src)) encoding = Inr text
          \<and> determinePrivateKey P (env_value src) = Inr privateKey
          \<and> parseDecryptEvalExpand P (Some text) privateKey (processEnv s) = Inl e \<longrightarrow>
           injectEnvFile P (env_value src) s =
             s\<lparr>readableFilepaths := set_add (env_value src) (readableFilepaths s),
               processedEnvs := processedEnvs s @
                 [(new_row TYPE_ENV_FILE None (Some (env_value src)))
                    \<lparr>row_error := Some
                       (if err_code e = Some (js ''ENOENT'')
                        then Error (Some (js ''MISSING_ENV_FILE''))
                               (js ''missing '' @ env_value src @ js '' file (''
                                  @ path_resolve P (env_value src) @ js '')'')
                        else e)\<rparr>]\<rparr>))
   \<and> ((\<forall>x \<in> set plan. env_type x \<noteq> TYPE_ENV_VAULT_FILE) \<longrightarrow>
        fst (run_loop P plan s) = None
        \<and> length (processedEnvs (snd (run_loop P plan s))) =
            length (processedEnvs s) + length (filter handled plan))"
proof -
  have inline_part: "env_type src = TYPE_ENV \<longrightarrow>
      run_loop P (src # rest) s = run_loop P rest (injectEnv P (env_value src) s)
      \<and> (parseDecryptEvalExpand P (Some (env_value src)) None (processEnv s) = Inl e \<longrightarrow>
           injectEnv P (env_value src) s =
             s\<lparr>processedEnvs := processedEnvs s @
                 [(new_row TYPE_ENV (Some (env_value src)) None)\<lparr>row_error := Some e\<rparr>]\<rparr>)"
    by (simp add: injectEnv_def Let_def push_row_def)
  have file_part: "env_type src = TYPE_ENV_FILE \<longrightarrow>
      run_loop P (src # rest) s = run_loop P rest (injectEnvFile P (env_value src) s)
      \<and> ((detectEncoding P (path_resolve P (env_value src)) = Inl e
           \<or> (detectEncoding P (path_resolve P (env_value src)) = Inr encoding
               \<and> readFileSync P (path_resolve P (env_value src)) encoding = Inl e)) \<longrightarrow>
           injectEnvFile P (env_value src) s =
             s\<lparr>processedEnvs := processedEnvs s @
                 [(new_row TYPE_ENV_FILE None (Some (env_value src)))
                    \<lparr>row_error := Some
                       (if err_code e = Some (js ''ENOENT'')
                        then Error (Some (js ''MISSING_ENV_FILE''))
                               (js ''missing '' @ env_value src @ js '' file (''
                                  @ path_resolve P (env_value src) @ js '')'')
                        else e)\<rparr>]\<rparr>)
      \<and> (detectEncoding P (path_resolve P (env_value src)) = Inr encoding
          \<and> readFileSync P (path_resolve P (env_value src)) encoding = Inr text
          \<and> determinePrivateKey P (env_value src) = Inr privateKey
          \<and> parseDecryptEvalExpand P (Some text) privateKey (processEnv s) = Inl e \<longrightarrow>
           injectEnvFile P (env_value src) s =
             s\<lparr>readableFilepaths := set_add (env_value src) (readableFilepaths s),
               processedEnvs := processedEnvs s @
                 [(new_row TYPE_ENV_FILE None (Some (env_value src)))
                    \<lparr>row_error := Some
                       (if err_code e = Some (js ''ENOENT'')
                        then Error (Some (js ''MISSING_ENV_FILE''))
                               (js ''missing '' @ env_value src @ js '' file (''
                                  @ path_resolve P (env_value src) @ js '')'')
                        else e)\<rparr>]\<rparr>)"
    by (auto simp: injectEnvFile_def Let_def push_row_def envFile_error_def)
  have plan_part: "(\<forall>x \<in> set plan. env_type x \<noteq> TYPE_ENV_VAULT_FILE) \<longrightarrow>
        fst (run_loop P plan s) = None
        \<and> length (processedEnvs (snd (run_loop P plan s))) =
            length (processedEnvs s) + length (filter handled plan)"
    using run_loop_without_vault [of plan P s] by (rule impI)
  show ?thesis
    by (rule conjI [OF inline_part conjI [OF file_part plan_part]])
qed

theorem inline_and_file_failures_recorded_witness:
  "parseDecryptEvalExpand demo (Some (js ''garbage'')) None [] = Inl (Error None (js ''parse failure''))
   \<and> detectEncoding demo (path_resolve demo (js ''missing.env''))
       = Inl (Error (Some (js ''ENOENT'')) (js ''no such file or directory''))
   \<and> map row_error (processedEnvs (snd (run_loop demo
       [inline_src (js ''garbage''), file_src (js ''missing.env''), inline_src (js ''A=1'')]
       (new_Run demo [file_src (js ''missing.env'')] False [] []))))
     = [Some (Error None (js ''parse failure'')),
        Some (Error (Some (js ''MISSING_ENV_FILE'')) (js ''missing missing.env file (/app/missing.env)'')),
        None]
   \<and> fst (run_loop demo
       [inline_src (js ''garbage''), file_src (js ''missing.env''), inline_src (js ''A=1'')]
       (new_Run demo [file_src (js ''missing.env'')] False [] [])) = None"
  using inline_and_file_failures_recorded
          [of "inline_src (js ''garbage'')" demo
              "[file_src (js ''missing.env''), inline_src (js ''A=1'')]"
              "new_Run demo [file_src (js ''missing.env'')] False [] []"
              "Error None (js ''parse failure'')" "(js ''utf8'')" "(js '''')" None
              "[inline_src (js ''garbage''), file_src (js ''missing.env''), inline_src (js ''A=1'')]"]
        inline_and_file_failures_recorded
          [of "file_src (js ''missing.env'')" demo "[inline_src (js ''A=1'')]"
              "injectEnv demo (js ''garbage'') (new_Run demo [file_src (js ''missing.env'')] False [] [])"
              "Error (Some (js ''ENOENT'')) (js ''no such file or directory'')" "(js ''utf8'')" "(js '''')" None
              "[]"]
  by (simp add: demo_simps)

text \<open>
  C8.  When \<open>run()\<close> returns, \<open>readableFilepaths\<close> of the report holds exactly the paths
  of the file and vault sources of the plan that were read successfully; the path of a
  source whose file could not be read is in it only if another source of the plan read
  that path.
\<close>

theorem readableFilepaths_exact:
  assumes "fst (run P (new_Run P envs0 overload0 key processEnv0)) = Inr rep"
  shows "set (rep_readableFilepaths rep) =
           env_value ` {e \<in> set (envs (new_Run P envs0 overload0 key processEnv0)).
                          successfully_read P e}"
proof -
  let ?s = "new_Run P envs0 overload0 key processEnv0"
  obtain s' where l: "run_loop P (envs ?s) ?s = (None, s')"
    using run_completed(1) [OF assms] by (cases "run_loop P (envs ?s) ?s") simp
  with run_completed(2) [OF assms] have rep: "rep = make_report s'" by simp
  have "readableFilepaths ?s = []" by (simp add: new_Run_def Let_def)
  with readable_run_loop [OF l] rep show ?thesis
    by (simp add: make_report_def)
qed

theorem readableFilepaths_exact_witness:
  "\<not> isl (fst (run demo
       (new_Run demo [file_src (js ''missing.env''), file_src (js ''.env'')] False [] [])))
   \<and> rep_readableFilepaths (projr (fst (run demo
       (new_Run demo [file_src (js ''missing.env''), file_src (js ''.env'')] False [] []))))
     = [js ''.env'']
   \<and> successfully_read demo (file_src (js ''.env''))
   \<and> \<not> successfully_read demo (file_src (js ''missing.env''))"
  using readableFilepaths_exact
          [of demo "[file_src (js ''missing.env''), file_src (js ''.env'')]" False "[]" "[]"
              "projr (fst (run demo
                 (new_Run demo [file_src (js ''missing.env''), file_src (js ''.env'')] False [] [])))"]
  by (simp add: demo_simps successfully_read_def file_read_ok_def vault_read_ok_def)

text \<open>
  C9.  The test for a blank master secret looks at the length only: whenever the
  master secret is not empty and the vault file exists, no \<open>MISSING_DOTENV_KEY\<close> error
  is thrown by that test, and the outcome of the handler is that of reading the vault
  and of trying, in order, the trimmed parts of the secret.  The parts are those of
  splitting at the commas: they contain no comma and joined by commas they give the
  secret back.  Trimming a key removes white space from its two ends and nothing else.
  In particular a master secret that consists of white space only is one part, is
  trimmed to the empty string, and the outcome is that of decrypting with the empty key.
\<close>

theorem whitespace_key_passes_blank_check:
  assumes "DOTENV_KEY s \<noteq> []" "existsSync P (path_resolve P f)"
  shows "fst (injectEnvVaultFile P f s) =
           (case parsedVault P (path_resolve P f) of
              Inl e \<Rightarrow> Some e
            | Inr v \<Rightarrow> (case try_in_order P (map trim (dotenvKeys s)) v of
                          Inl e \<Rightarrow> Some e | Inr plain \<Rightarrow> None))
         \<and> dotenvKeys s \<noteq> [] \<and> join COMMA (dotenvKeys s) = DOTENV_KEY s
         \<and> (\<forall>k \<in> set (dotenvKeys s). COMMA \<notin> set k)
         \<and> (\<forall>k. \<exists>pre post. k = pre @ trim k @ post
               \<and> (\<forall>c \<in> set pre. isWhiteSpace c) \<and> (\<forall>c \<in> set post. isWhiteSpace c)
               \<and> (trim k \<noteq> [] \<longrightarrow>
                    \<not> isWhiteSpace (hd (trim k)) \<and> \<not> isWhiteSpace (last (trim k))))
         \<and> ((\<forall>c \<in> set (DOTENV_KEY s). isWhiteSpace c) \<longrightarrow>
               dotenvKeys s = [DOTENV_KEY s] \<and> trim (DOTENV_KEY s) = []
               \<and> fst (injectEnvVaultFile P f s) =
                   (case parsedVault P (path_resolve P f) of
                      Inl e \<Rightarrow> Some e
                    | Inr v \<Rightarrow> (case decrypted P [] v of
                                  Inl e \<Rightarrow> Some e | Inr plain \<Rightarrow> None)))"
proof -
  have same: "dotenvKeys (s\<lparr>readableFilepaths := set_add f (readableFilepaths s)\<rparr>) = dotenvKeys s"
    by (simp add: dotenvKeys_def)
  have res: "fst (injectEnvVaultFile P f s) =
           (case parsedVault P (path_resolve P f) of
              Inl e \<Rightarrow> Some e
            | Inr v \<Rightarrow> (case try_in_order P (map trim (dotenvKeys s)) v of
                          Inl e \<Rightarrow> Some e | Inr plain \<Rightarrow> None))"
    using assms same
    by (simp add: injectEnvVaultFile_def Let_def rotate_try_in_order
             split: sum.splits prod.splits)
  have ne: "dotenvKeys s \<noteq> []" by (simp add: dotenvKeys_def split_nonempty)
  have jn: "join COMMA (dotenvKeys s) = DOTENV_KEY s" by (simp add: dotenvKeys_def join_split)
  have parts: "\<forall>k \<in> set (dotenvKeys s). COMMA \<notin> set k"
    by (auto simp: dotenvKeys_def dest: split_parts_without_separator)
  have ws: "dotenvKeys s = [DOTENV_KEY s] \<and> trim (DOTENV_KEY s) = []
               \<and> fst (injectEnvVaultFile P f s) =
                   (case parsedVault P (path_resolve P f) of
                      Inl e \<Rightarrow> Some e
                    | Inr v \<Rightarrow> (case decrypted P [] v of
                                  Inl e \<Rightarrow> Some e | Inr plain \<Rightarrow> None))"
    if all: "\<forall>c \<in> set (DOTENV_KEY s). isWhiteSpace c"
  proof -
    from all comma_not_whiteSpace have "COMMA \<notin> set (DOTENV_KEY s)" by blast
    then have keys: "dotenvKeys s = [DOTENV_KEY s]"
      by (simp add: dotenvKeys_def split_without_separator)
    have tr: "trim (DOTENV_KEY s) = []" using all by (rule trim_whitespace_only)
    from res keys tr show ?thesis by (simp split: sum.splits)
  qed
  from res ne jn parts trim_decomposition ws show ?thesis by blast
qed

theorem whitespace_key_passes_blank_check_witness:
  "isWhiteSpace 0x20 \<and> isWhiteSpace 0xA0 \<and> isWhiteSpace 0xFEFF \<and> isWhiteSpace 0x2003
   \<and> \<not> isWhiteSpace 0x200B \<and> \<not> isWhiteSpace COMMA
   \<and> existsSync demo (path_resolve demo (js ''.env.vault''))
   \<and> dotenvKeys (new_Run demo [] False [0x20, 0xA0, 0xFEFF, 0x09, 0x2003] [])
       = [[0x20, 0xA0, 0xFEFF, 0x09, 0x2003]]
   \<and> trim [0x20, 0xA0, 0xFEFF, 0x09, 0x2003] = []
   \<and> fst (injectEnvVaultFile demo (js ''.env.vault'')
            (new_Run demo [] False [0x20, 0xA0, 0xFEFF, 0x09, 0x2003] []))
       = Some (Error (Some (js ''DECRYPTION_FAILED'')) (js ''cannot decrypt with ''))
   \<and> dotenvKeys (new_Run demo [] False (js ''bad ,'' @ 0xA0 # js ''good '') [])
       = [js ''bad '', 0xA0 # js ''good '']
   \<and> map trim (dotenvKeys (new_Run demo [] False (js ''bad ,'' @ 0xA0 # js ''good '') []))
       = [js ''bad'', js ''good'']
   \<and> fst (injectEnvVaultFile demo (js ''.env.vault'')
            (new_Run demo [] False (js ''bad ,'' @ 0xA0 # js ''good '') [])) = None"
  using whitespace_key_passes_blank_check
          [of "new_Run demo [] False [0x20, 0xA0, 0xFEFF, 0x09, 0x2003] []" demo
              "js ''.env.vault''"]
        whitespace_key_passes_blank_check
          [of "new_Run demo [] False (js ''bad ,'' @ 0xA0 # js ''good '') []" demo
              "js ''.env.vault''"]
  by (simp add: demo_simps)

text \<open>
  C10 (as amended).  For a count \<open>n \<ge> 0\<close>, \<open>truncate(s, n)\<close> is the first
  \<open>min(n, length s)\<close> characters of \<open>s\<close> followed by the ellipsis, and \<open>n\<close> defaults
  to 7.  The result differs from \<open>s\<close> whenever \<open>s\<close> has at most \<open>n\<close> characters; it is
  equal to \<open>s\<close> exactly when \<open>s\<close> is \<open>n\<close> characters followed by the ellipsis.
\<close>

theorem truncate_appends_ellipsis:
  "(0 \<le> n \<longrightarrow>
      truncate s (Some n) = take (min (nat n) (length s)) s @ [ELLIPSIS]
      \<and> (length s \<le> nat n \<longrightarrow> truncate s (Some n) \<noteq> s)
      \<and> (truncate s (Some n) = s \<longleftrightarrow> length s = Suc (nat n) \<and> last s = ELLIPSIS))
   \<and> truncate s None = truncate s (Some 7)"
proof -
  have a: "truncate s (Some n) = take (nat n) s @ [ELLIPSIS]" if "0 \<le> n"
    using that by (simp add: truncate_def slice0_nonneg)
  have b: "truncate s None = truncate s (Some 7)"
    by (simp add: truncate_def)
  have c: "take (min (nat n) (length s)) s = take (nat n) s"
    by (simp add: min_def)
  from a b c show ?thesis by (auto simp: take_snoc_eq_iff)
qed

theorem truncate_appends_ellipsis_witness:
  "(0::int) \<le> 2 \<and> truncate [0x61, 0x62, 0x63] (Some 2) = [0x61, 0x62, ELLIPSIS]
   \<and> length [0x61, 0x62, 0x63 :: 16 word] \<le> nat 5
   \<and> truncate [0x61, 0x62, 0x63] (Some 5) \<noteq> [0x61, 0x62, 0x63]
   \<and> truncate [] None = [ELLIPSIS]"
  using truncate_appends_ellipsis [of 2 "[0x61, 0x62, 0x63]"]
        truncate_appends_ellipsis [of 5 "[0x61, 0x62, 0x63]"]
        truncate_appends_ellipsis [of 7 "[]"]
  by simp

text \<open>
  C10 as stated fails: the string that is just the ellipsis, truncated to zero
  characters, is returned as it is.
\<close>

theorem truncate_fixed_point_counterexample:
  "(0::int) \<le> 0 \<and> truncate [ELLIPSIS] (Some 0) = [ELLIPSIS]"
  by (simp add: truncate_def slice0_def)

end
